theory Spec2Isabelle
  imports Complex_Main
begin

section \<open>Numeric values\<close>

text \<open>
  The sampler of \<^verbatim>\<open>src/spectractor/extractor.py\<close> computes with numpy floats. A cost
  is a float that may be \<^verbatim>\<open>nan\<close> or \<^verbatim>\<open>inf\<close>, and the static bounds of the fit contain
  \<^verbatim>\<open>np.inf\<close>. A float is modelled as a finite real or one of the three special values;
  the special values follow IEEE 754, finite values are exact reals (rounding, overflow
  and underflow of finite results are not modelled).
\<close>

datatype fl = Fin real | PInf | NInf | NaN

fun fl_lt :: "fl \<Rightarrow> fl \<Rightarrow> bool" where
  "fl_lt NaN _ = False"
| "fl_lt _ NaN = False"
| "fl_lt (Fin a) (Fin b) = (a < b)"
| "fl_lt (Fin a) PInf = True"
| "fl_lt (Fin a) NInf = False"
| "fl_lt PInf _ = False"
| "fl_lt NInf NInf = False"
| "fl_lt NInf _ = True"

definition fl_gt :: "fl \<Rightarrow> fl \<Rightarrow> bool" where
  "fl_gt a b = fl_lt b a"

fun fl_le :: "fl \<Rightarrow> fl \<Rightarrow> bool" where
  "fl_le NaN _ = False"
| "fl_le _ NaN = False"
| "fl_le (Fin a) (Fin b) = (a \<le> b)"
| "fl_le (Fin a) PInf = True"
| "fl_le (Fin a) NInf = False"
| "fl_le PInf PInf = True"
| "fl_le PInf _ = False"
| "fl_le NInf _ = True"

fun fl_sub :: "fl \<Rightarrow> fl \<Rightarrow> fl" where
  "fl_sub NaN _ = NaN"
| "fl_sub _ NaN = NaN"
| "fl_sub (Fin a) (Fin b) = Fin (a - b)"
| "fl_sub (Fin a) PInf = NInf"
| "fl_sub (Fin a) NInf = PInf"
| "fl_sub PInf PInf = NaN"
| "fl_sub PInf _ = PInf"
| "fl_sub NInf NInf = NaN"
| "fl_sub NInf _ = NInf"

text \<open>Multiplication of a float by a finite factor, as in \<^verbatim>\<open>-0.5 * x\<close>.\<close>

fun fl_scale :: "real \<Rightarrow> fl \<Rightarrow> fl" where
  "fl_scale k (Fin a) = Fin (k * a)"
| "fl_scale k NaN = NaN"
| "fl_scale k PInf = (if 0 < k then PInf else if k < 0 then NInf else NaN)"
| "fl_scale k NInf = (if 0 < k then NInf else if k < 0 then PInf else NaN)"

fun fl_exp :: "fl \<Rightarrow> fl" where
  "fl_exp (Fin a) = Fin (exp a)"
| "fl_exp PInf = PInf"
| "fl_exp NInf = Fin 0"
| "fl_exp NaN = NaN"

fun is_finite :: "fl \<Rightarrow> bool" where
  "is_finite (Fin a) = True"
| "is_finite _ = False"

section \<open>Parameter vectors and the prior\<close>

type_synonym vec = "real list"

datatype error = IndexError

text \<open>
  \<^verbatim>\<open>Extractor.__init__\<close>, line 35:
  \<^verbatim>\<open>self.bounds = ((0, 0, 0, 0, 0, 1, -20), (np.inf, 1.0, np.inf, 10, 1.0, 100, 20))\<close>
\<close>

definition Extractor_bounds :: "fl list \<times> fl list" where
  "Extractor_bounds =
     ([Fin 0, Fin 0, Fin 0, Fin 0, Fin 0, Fin 1, Fin (- 20)],
      [PInf, Fin 1, PInf, Fin 10, Fin 1, Fin 100, Fin 20])"

text \<open>
  The loop of \<^verbatim>\<open>Extractor_MCMC.prior\<close>:
  \<^verbatim>\<open>
  in_bounds = True
  for npar, par in enumerate(p):
      if par < self.bounds[0][npar] or par > self.bounds[1][npar]:
          in_bounds = False
          break
  \<close>
  \<^verbatim>\<open>or\<close> evaluates its right operand only when the left one is false, and indexing a
  tuple beyond its length raises \<^verbatim>\<open>IndexError\<close>.
\<close>

fun in_bounds_from :: "fl list \<Rightarrow> fl list \<Rightarrow> nat \<Rightarrow> vec \<Rightarrow> error + bool" where
  "in_bounds_from lo hi npar [] = Inr True"
| "in_bounds_from lo hi npar (par # ps) =
     (if length lo \<le> npar then Inl IndexError
      else if fl_lt (Fin par) (lo ! npar) then Inr False
      else if length hi \<le> npar then Inl IndexError
      else if fl_gt (Fin par) (hi ! npar) then Inr False
      else in_bounds_from lo hi (Suc npar) ps)"

definition prior :: "fl list \<times> fl list \<Rightarrow> vec \<Rightarrow> error + real" where
  "prior bounds p =
     (case in_bounds_from (fst bounds) (snd bounds) 0 p of
        Inl e \<Rightarrow> Inl e
      | Inr in_bounds \<Rightarrow> Inr (if in_bounds then 1 else 0))"

section \<open>Rows and chains\<close>

text \<open>
  \<^verbatim>\<open>Extractor_MCMC\<close> uses the classes \<^verbatim>\<open>Chain\<close> and \<^verbatim>\<open>Chains\<close> of the module
  \<^verbatim>\<open>mcmc\<close>, which is not among the source files. What \<^verbatim>\<open>mcmc\<close> and \<^verbatim>\<open>run_mcmc\<close>
  read and write of a chain is visible at their call sites: the fields \<^verbatim>\<open>nchain\<close>,
  \<^verbatim>\<open>nsteps\<close>, \<^verbatim>\<open>start_vec\<close>, \<^verbatim>\<open>start_key\<close> and \<^verbatim>\<open>start_index\<close>, and the methods
  \<^verbatim>\<open>draw_vector\<close>, \<^verbatim>\<open>make_dictline\<close>, \<^verbatim>\<open>newrow\<close>, \<^verbatim>\<open>update_proposal_cov\<close> and
  \<^verbatim>\<open>append2file\<close>.
\<close>

record row =
  Chain :: int
  Index :: int
  Chi2 :: fl
  Params :: vec

type_synonym table = "(int \<times> row) list"

text \<open>
  A chain object. \<open>proposal_cov\<close> is the private adaptive state from which the chain
  draws its proposals; its type is left open. \<open>rows\<close> is the chain's row buffer, the
  rows added by \<^verbatim>\<open>newrow\<close> and not yet written to the file.
\<close>

record 'cs chain =
  nchain :: int
  nsteps :: int
  start_vec :: vec
  start_key :: int
  start_index :: int
  proposal_cov :: 'cs
  rows :: table

text \<open>
  Modelled from the spec: \<^verbatim>\<open>Chain.make_dictline\<close> is absent. A ChainRow holds the chain
  id, the local step index, the cost value at that step and the full parameter vector
  at that step.
\<close>

definition make_dictline :: "'cs chain \<Rightarrow> int \<Rightarrow> fl \<Rightarrow> vec \<Rightarrow> row" where
  "make_dictline c i chisq_val v = \<lparr>Chain = nchain c, Index = i, Chi2 = chisq_val, Params = v\<rparr>"

text \<open>
  Modelled from the spec: \<^verbatim>\<open>Chain.newrow\<close> is absent. Rows are append-only and never
  mutated after being written; each chain has a private row buffer.
\<close>

definition newrow :: "'cs chain \<Rightarrow> row \<Rightarrow> int \<Rightarrow> 'cs chain" where
  "newrow c dictline key = c\<lparr>rows := rows c @ [(key, dictline)]\<rparr>"

text \<open>
  Modelled from the spec: \<^verbatim>\<open>Chain.append2file\<close> is absent. The row log is append-only and
  is flushed after each chain's full run: the chain's buffered rows go to the end of the
  file.
\<close>

definition append2file :: "'cs chain \<Rightarrow> table \<Rightarrow> table" where
  "append2file c file = file @ rows c"

definition chain_rows :: "int \<Rightarrow> table \<Rightarrow> table" where
  "chain_rows n file = filter (\<lambda>(key, r). Chain r = n) file"

text \<open>
  Modelled from the spec: the constructor of \<^verbatim>\<open>Chain\<close> is absent; \<^verbatim>\<open>run_mcmc\<close> calls it as
  \<^verbatim>\<open>Chain(self.chains.chains_filename, self.covfile, nchain=i, nsteps=self.nsteps)\<close>. The
  configuration behind \<^verbatim>\<open>covfile\<close> is the starting parameter vector and the seed proposal
  covariance. The resumption point of a chain is determined by counting its existing
  rows in the file. A chain without rows is brand new: it has no resumable state
  (\<^verbatim>\<open>start_key\<close> is \<open>-1\<close>, the value \<^verbatim>\<open>mcmc\<close> tests for), starts at the starting vector and
  at step 0. A chain with \<open>k > 0\<close> rows resumes from the last written row: \<^verbatim>\<open>start_key\<close> is
  that row's key, \<^verbatim>\<open>start_vec\<close> its parameter vector, and the cursor \<^verbatim>\<open>start_index\<close> is
  \<open>k - 1\<close>, the step of that row, which \<^verbatim>\<open>mcmc\<close> increments before it walks.
\<close>

definition Chain_new :: "table \<Rightarrow> vec \<times> 'cs \<Rightarrow> int \<Rightarrow> int \<Rightarrow> 'cs chain" where
  "Chain_new file covfile n steps =
     (case chain_rows n file of
        [] \<Rightarrow> \<lparr>nchain = n, nsteps = steps, start_vec = fst covfile, start_key = - 1,
               start_index = 0, proposal_cov = snd covfile, rows = []\<rparr>
      | r # rs \<Rightarrow>
          \<lparr>nchain = n, nsteps = steps, start_vec = Params (snd (last (r # rs))),
           start_key = fst (last (r # rs)), start_index = int (length (r # rs)) - 1,
           proposal_cov = snd covfile, rows = []\<rparr>)"

section \<open>The extractor\<close>

text \<open>
  What \<^verbatim>\<open>Extractor_MCMC.mcmc\<close> consumes from outside itself, as fields of one record:
  \<^item> \<open>bounds\<close>: \<^verbatim>\<open>self.bounds\<close>;
  \<^item> \<open>chisq\<close>: \<^verbatim>\<open>self.chisq\<close>, the cost callable, which runs the simulator;
  \<^item> \<open>max_sim v\<close>: \<^verbatim>\<open>np.max(self.simulation(self.spectrum.lambdas, *v))\<close>, and
    \<open>max_data\<close>: \<^verbatim>\<open>np.max(self.spectrum.data)\<close>, both taken finite;
  \<^item> \<open>exploration_time\<close>: \<^verbatim>\<open>self.exploration_time\<close>;
  \<^item> \<open>seed\<close> and \<open>uniform\<close>: \<^verbatim>\<open>np.random.seed\<close> and \<^verbatim>\<open>np.random.uniform(0, 1)\<close> on the
    process-wide generator state of type \<open>'g\<close>;
  \<^item> \<open>draw_vector\<close> and \<open>update_proposal_cov\<close>: the two absent methods of \<^verbatim>\<open>Chain\<close> that
    read and adapt the proposal state; \<open>draw_vector\<close> consumes generator state.
\<close>

record ('g, 'cs) extractor =
  bounds :: "fl list \<times> fl list"
  chisq :: "vec \<Rightarrow> fl"
  max_sim :: "vec \<Rightarrow> real"
  max_data :: real
  exploration_time :: int
  seed :: "int \<Rightarrow> 'g"
  uniform :: "'g \<Rightarrow> real \<times> 'g"
  draw_vector :: "'cs \<Rightarrow> vec \<Rightarrow> 'g \<Rightarrow> vec \<times> 'g"
  update_proposal_cov :: "'cs \<Rightarrow> vec \<Rightarrow> 'cs"

section \<open>The random walk of one chain\<close>

text \<open>
  The state of a running \<^verbatim>\<open>mcmc(chain)\<close>: the locals \<^verbatim>\<open>vec1\<close> and \<^verbatim>\<open>chisq1\<close>, the
  generator state, the chain object, and the list of vectors on which \<^verbatim>\<open>self.chisq\<close> has
  been invoked so far. \<^verbatim>\<open>L1\<close> and \<^verbatim>\<open>L2\<close> are assigned and never read, and the debug prints
  change nothing; both are left out.
\<close>

record ('g, 'cs) walk =
  vec1 :: vec
  chisq1 :: fl
  rng :: 'g
  ch :: "'cs chain"
  chisq_calls :: "vec list"

text \<open>
  The initialisation loop of a brand-new chain:
  \<^verbatim>\<open>
  prior1 = 1e-10
  while prior1 < 1e-9:
      vec1 = chain.draw_vector(chain.start_vec)
      prior1 = self.prior(vec1)
  \<close>
  It may run forever; not returning is \<open>None\<close>.
\<close>

partial_function (option) draw_start ::
  "('g, 'cs) extractor \<Rightarrow> 'cs chain \<Rightarrow> real \<Rightarrow> vec \<Rightarrow> 'g \<Rightarrow> (error + vec \<times> 'g) option" where
  "draw_start E c prior1 v1 g =
     (if prior1 < 1 / 10 ^ 9 then
        (case draw_vector E (proposal_cov c) (start_vec c) g of
           (v, g') \<Rightarrow>
             (case prior (bounds E) v of
                Inl e \<Rightarrow> Some (Inl e)
              | Inr p \<Rightarrow> draw_start E c p v g'))
      else Some (Inr (v1, g)))"

text \<open>
  \<^verbatim>\<open>
  sim = self.simulation(self.spectrum.lambdas, *vec1)
  if np.max(sim) > 0: vec1[0] *= np.max(self.spectrum.data) / np.max(sim)
  \<close>
  Item 0 of an empty vector raises \<^verbatim>\<open>IndexError\<close>.
\<close>

definition rescale :: "('g, 'cs) extractor \<Rightarrow> vec \<Rightarrow> error + vec" where
  "rescale E v =
     (if max_sim E v > 0 then
        (case v of
           [] \<Rightarrow> Inl IndexError
         | a # as \<Rightarrow> Inr (a * (max_data E / max_sim E v) # as))
      else Inr v)"

text \<open>
  Lines 257 to 272 of \<^verbatim>\<open>mcmc\<close>, up to the loop. \<open>g\<close> is the generator state the process
  has when \<^verbatim>\<open>mcmc\<close> is entered; \<^verbatim>\<open>np.random.seed(chain.nchain)\<close> replaces it. For a
  resumed chain \<^verbatim>\<open>vec1\<close> is the object \<^verbatim>\<open>chain.start_vec\<close> itself, so the assignment to
  \<^verbatim>\<open>vec1[0]\<close> changes \<^verbatim>\<open>chain.start_vec\<close> with it; the vector drawn for a brand-new chain
  is an object of its own.
\<close>

definition mcmc_start ::
  "('g, 'cs) extractor \<Rightarrow> 'cs chain \<Rightarrow> 'g \<Rightarrow> (error + ('g, 'cs) walk) option" where
  "mcmc_start E c g =
     (let g0 = seed E (nchain c) in
      case (if start_key c = - 1
            then (case draw_start E c (1 / 10 ^ 10) (start_vec c) g0 of
                    None \<Rightarrow> None
                  | Some (Inl e) \<Rightarrow> Some (Inl e)
                  | Some (Inr (v, g')) \<Rightarrow> Some (Inr (v, g', c)))
            else Some (Inr (start_vec c, g0, c\<lparr>start_index := start_index c + 1\<rparr>))) of
        None \<Rightarrow> None
      | Some (Inl e) \<Rightarrow> Some (Inl e)
      | Some (Inr (v, g1, c')) \<Rightarrow>
          (case rescale E v of
             Inl e \<Rightarrow> Some (Inl e)
           | Inr v' \<Rightarrow>
               Some (Inr \<lparr>vec1 = v', chisq1 = chisq E v', rng = g1,
                          ch = (if start_key c = - 1 then c' else c'\<lparr>start_vec := v'\<rparr>),
                          chisq_calls = [v']\<rparr>)))"

text \<open>The test \<^verbatim>\<open>np.exp(-0.5 * (chisq2 - chisq1)) > r\<close>.\<close>

definition accept :: "fl \<Rightarrow> fl \<Rightarrow> real \<Rightarrow> bool" where
  "accept c1 c2 r = fl_gt (fl_exp (fl_scale (- 0.5) (fl_sub c2 c1))) (Fin r)"

text \<open>
  The cost given to a candidate, with the calls of \<^verbatim>\<open>self.chisq\<close> recorded:
  \<^verbatim>\<open>
  if prior2 > 1e-10:
      chisq2 = self.chisq(vec2)
  else:
      chisq2 = 1e20
  \<close>
\<close>

definition candidate_cost ::
  "('g, 'cs) extractor \<Rightarrow> real \<Rightarrow> vec \<Rightarrow> vec list \<Rightarrow> fl \<times> vec list" where
  "candidate_cost E prior2 vec2 calls =
     (if prior2 > 1 / 10 ^ 10 then (chisq E vec2, calls @ [vec2]) else (Fin (10 ^ 20), calls))"

text \<open>The key of the row of step \<open>i\<close>: \<^verbatim>\<open>key=i + chain.nchain * chain.nsteps\<close>.\<close>

definition row_key :: "'cs chain \<Rightarrow> int \<Rightarrow> int" where
  "row_key c i = i + nchain c * nsteps c"

text \<open>One iteration of the loop of \<^verbatim>\<open>mcmc\<close>, at step \<open>i\<close> (lines 282 to 315).\<close>

definition mcmc_step ::
  "('g, 'cs) extractor \<Rightarrow> int \<Rightarrow> ('g, 'cs) walk \<Rightarrow> error + ('g, 'cs) walk" where
  "mcmc_step E i s =
     (case draw_vector E (proposal_cov (ch s)) (vec1 s) (rng s) of
        (vec2, g1) \<Rightarrow>
          (case prior (bounds E) vec2 of
             Inl e \<Rightarrow> Inl e
           | Inr prior2 \<Rightarrow>
               (case candidate_cost E prior2 vec2 (chisq_calls s) of
                  (chisq2, calls) \<Rightarrow>
                    (case uniform E g1 of
                       (r, g2) \<Rightarrow>
                         (let (v, cost) = (if accept (chisq1 s) chisq2 r then (vec2, chisq2)
                                           else (vec1 s, chisq1 s));
                              dictline = make_dictline (ch s) i cost v;
                              c1 = newrow (ch s) dictline (row_key (ch s) i);
                              c2 = (if i > exploration_time E
                                    then c1\<lparr>proposal_cov :=
                                              update_proposal_cov E (proposal_cov c1) v\<rparr>
                                    else c1)
                          in Inr \<lparr>vec1 = v, chisq1 = cost, rng = g2, ch = c2,
                                  chisq_calls = calls\<rparr>)))))"

text \<open>The loop over the keys; an exception ends it.\<close>

fun walk_loop ::
  "('g, 'cs) extractor \<Rightarrow> int list \<Rightarrow> ('g, 'cs) walk \<Rightarrow> error + ('g, 'cs) walk" where
  "walk_loop E [] s = Inr s"
| "walk_loop E (i # is) s =
     (case mcmc_step E i s of Inl e \<Rightarrow> Inl e | Inr s' \<Rightarrow> walk_loop E is s')"

text \<open>\<^verbatim>\<open>keys = range(chain.start_index, chain.nsteps)\<close>\<close>

definition keys :: "'cs chain \<Rightarrow> int list" where
  "keys c = [start_index c .. nsteps c - 1]"

text \<open>
  \<^verbatim>\<open>mcmc(chain)\<close> on the file \<open>file\<close>: the start, the loop, and after the loop
  \<^verbatim>\<open>chain.append2file(self.chains.chains_filename)\<close> (line 318). The result is the final
  state and the file; an exception leaves the file as it was.
\<close>

definition mcmc ::
  "('g, 'cs) extractor \<Rightarrow> 'cs chain \<Rightarrow> 'g \<Rightarrow> table \<Rightarrow>
     (error + ('g, 'cs) walk \<times> table) option" where
  "mcmc E c g file =
     (case mcmc_start E c g of
        None \<Rightarrow> None
      | Some (Inl e) \<Rightarrow> Some (Inl e)
      | Some (Inr s0) \<Rightarrow>
          (case walk_loop E (keys (ch s0)) s0 of
             Inl e \<Rightarrow> Some (Inl e)
           | Inr s \<Rightarrow> Some (Inr (s, append2file (ch s) file))))"

section \<open>Running all chains\<close>

text \<open>
  The configuration of \<^verbatim>\<open>Extractor_MCMC\<close> that \<^verbatim>\<open>run_mcmc\<close> reads: \<^verbatim>\<open>self.nchains\<close>,
  \<^verbatim>\<open>self.nsteps\<close> and \<^verbatim>\<open>self.covfile\<close>.
\<close>

record 'cs settings =
  nchains :: int
  self_nsteps :: int
  covfile :: "vec \<times> 'cs"

text \<open>
  What \<^verbatim>\<open>run_mcmc\<close> changes: the rows in the file \<^verbatim>\<open>chains_filename\<close>, the list
  \<^verbatim>\<open>self.chains.chains\<close>, the dispatches of the worker pool (each with the chain indices
  it was given) and the posterior summaries built (each with the rows it was built from).
\<close>

record 'cs run =
  chains_file :: table
  chains :: "'cs chain list"
  pool_maps :: "int list list"
  summaries :: "table list"

text \<open>
  Modelled from the spec: \<^verbatim>\<open>Chains.check_completness\<close> is absent. It inspects the persisted
  row log and reports whether all \<open>N\<close> chains already have \<open>total_steps\<close> rows.
\<close>

definition check_completness :: "table \<Rightarrow> int \<Rightarrow> int \<Rightarrow> bool" where
  "check_completness f N total_steps =
     list_all (\<lambda>n. int (length (chain_rows n f)) = total_steps) [0 .. N - 1]"

text \<open>
  \<^verbatim>\<open>pool.map_async(self.mcmc, self.chains.chains).get(999999)\<close>: every chain is walked by a
  worker process of its own, which starts from the generator state \<open>g\<close> of the parent. The
  workers only meet in the file, to which each appends its rows; they are run here one
  after the other. The exceptions of failed workers are collected, and a worker that
  does not return keeps the pool from returning.
\<close>

fun pool_map ::
  "('g, 'cs) extractor \<Rightarrow> 'cs chain list \<Rightarrow> 'g \<Rightarrow> table \<Rightarrow> (table \<times> error list) option" where
  "pool_map E [] g f = Some (f, [])"
| "pool_map E (c # cs) g f =
     (case mcmc E c g f of
        None \<Rightarrow> None
      | Some (Inl e) \<Rightarrow> map_option (\<lambda>(f', es). (f', e # es)) (pool_map E cs g f)
      | Some (Inr (s, f1)) \<Rightarrow> pool_map E cs g f1)"

text \<open>
  \<^verbatim>\<open>run_mcmc\<close>, lines 321 to 337. When the check reports complete, only the summary is
  built (\<^verbatim>\<open>chains_to_likelihood\<close>, from the rows of the file). Otherwise one chain per
  index is constructed and appended to \<^verbatim>\<open>self.chains.chains\<close>, the pool walks the chains,
  and the summary is built; an exception of a worker leaves \<^verbatim>\<open>run_mcmc\<close> before the
  summary. The branch for \<^verbatim>\<open>KeyboardInterrupt\<close> is \<open>run_mcmc_interrupted\<close> below.
\<close>

definition run_mcmc ::
  "('g, 'cs) extractor \<Rightarrow> 'cs settings \<Rightarrow> 'g \<Rightarrow> 'cs run \<Rightarrow> (error \<times> 'cs run + 'cs run) option" where
  "run_mcmc E cfg g R =
     (if check_completness (chains_file R) (nchains cfg) (self_nsteps cfg)
      then Some (Inr (R\<lparr>summaries := summaries R @ [chains_file R]\<rparr>))
      else
        (let cs = chains R @
                  map (\<lambda>i. Chain_new (chains_file R) (covfile cfg) i (self_nsteps cfg))
                    [0 .. nchains cfg - 1];
             pm = pool_maps R @ [map nchain cs]
         in case pool_map E cs g (chains_file R) of
              None \<Rightarrow> None
            | Some (f, []) \<Rightarrow>
                Some (Inr \<lparr>chains_file = f, chains = cs, pool_maps = pm,
                           summaries = summaries R @ [f]\<rparr>)
            | Some (f, e # es) \<Rightarrow>
                Some (Inl (e, \<lparr>chains_file = f, chains = cs, pool_maps = pm,
                               summaries = summaries R\<rparr>))))"

section \<open>An interrupt while the pool runs\<close>

text \<open>
  A worker executes \<^verbatim>\<open>mcmc(chain)\<close> statement by statement, and an interrupt finds it
  somewhere on the way. After the start (lines 257 to 274) the worker is described by the
  state of its walk, the keys its loop has not yet visited, the file, and whether it
  has returned. One step of the worker is one iteration of the loop (lines 277 to 315)
  while keys are left, and then the call \<^verbatim>\<open>chain.append2file(self.chains.chains_filename)\<close>
  of line 318, after which the worker has returned. The per-step write
  \<^verbatim>\<open>chain.append2filelastkey\<close> of line 313 is commented out, so an iteration does not
  touch the file.
\<close>

record ('g, 'cs) worker =
  walk_state :: "('g, 'cs) walk"
  todo :: "int list"
  wfile :: table
  returned :: bool

definition worker_step ::
  "('g, 'cs) extractor \<Rightarrow> ('g, 'cs) worker \<Rightarrow> error + ('g, 'cs) worker" where
  "worker_step E w =
     (case todo w of
        i # ks \<Rightarrow>
          (case mcmc_step E i (walk_state w) of
             Inl e \<Rightarrow> Inl e
           | Inr s \<Rightarrow> Inr (w\<lparr>walk_state := s, todo := ks\<rparr>))
      | [] \<Rightarrow>
          Inr (if returned w then w
               else w\<lparr>wfile := append2file (ch (walk_state w)) (wfile w), returned := True\<rparr>))"

fun worker_steps ::
  "('g, 'cs) extractor \<Rightarrow> nat \<Rightarrow> ('g, 'cs) worker \<Rightarrow> error + ('g, 'cs) worker" where
  "worker_steps E 0 w = Inr w"
| "worker_steps E (Suc n) w =
     (case worker_step E w of Inl e \<Rightarrow> Inl e | Inr w' \<Rightarrow> worker_steps E n w')"








section \<open>Example inputs\<close>

text \<open>
  Concrete inputs on which the definitions are evaluated. \<open>example_p\<close> is the initial
  vector \<^verbatim>\<open>self.p\<close> of \<^verbatim>\<open>Extractor.__init__\<close>; \<open>example_bad\<close> has a negative amplitude and
  lies outside the bounds. In \<open>toy cost draw u\<close> the cost callable is \<open>cost\<close>, every proposal
  from \<open>v\<close> is \<open>draw v\<close>, every uniform draw is \<open>u\<close>, the generator state counts the draws,
  and the maximum of the simulated model is the amplitude.
\<close>

definition example_p :: vec where
  "example_p = [1, 0.1, 300, 3, 0.03, 10, 0.001]"

definition example_bad :: vec where
  "example_bad = [- 1, 0.1, 300, 3, 0.03, 10, 0.001]"

definition toy :: "(vec \<Rightarrow> fl) \<Rightarrow> (vec \<Rightarrow> vec) \<Rightarrow> real \<Rightarrow> (nat, unit) extractor" where
  "toy cost draw u =
     \<lparr>bounds = Extractor_bounds, chisq = cost,
      max_sim = (\<lambda>v. case v of [] \<Rightarrow> 0 | a # as \<Rightarrow> a),
      max_data = 2, exploration_time = 100, seed = (\<lambda>n. 0),
      uniform = (\<lambda>g. (u, Suc g)), draw_vector = (\<lambda>cs v g. (draw v, Suc g)),
      update_proposal_cov = (\<lambda>cs v. cs)\<rparr>"

definition example_chain :: "unit chain" where
  "example_chain =
     \<lparr>nchain = 1, nsteps = 10, start_vec = example_p, start_key = 12, start_index = 2,
      proposal_cov = (), rows = []\<rparr>"

definition example_walk :: "fl \<Rightarrow> (nat, unit) walk" where
  "example_walk c =
     \<lparr>vec1 = example_p, chisq1 = c, rng = 0, ch = example_chain, chisq_calls = [example_p]\<rparr>"

definition ex_infeasible :: "(nat, unit) extractor" where
  "ex_infeasible = toy (\<lambda>v. Fin 0) (\<lambda>v. example_bad) (1 / 2)"

text \<open>
  A file with three rows of chain 1, written for ten steps per chain, and an extractor
  whose cost is the amplitude.
\<close>

definition example_file :: table where
  "example_file =
     [(10, \<lparr>Chain = 1, Index = 0, Chi2 = Fin 1, Params = example_p\<rparr>),
      (11, \<lparr>Chain = 1, Index = 1, Chi2 = Fin 1, Params = example_p\<rparr>),
      (12, \<lparr>Chain = 1, Index = 2, Chi2 = Fin 1, Params = example_p\<rparr>)]"

definition ex_resume :: "(nat, unit) extractor" where
  "ex_resume = toy (\<lambda>v. case v of [] \<Rightarrow> Fin 0 | a # as \<Rightarrow> Fin a) (\<lambda>v. v) (1 / 2)"

definition example_resumed :: "unit chain" where
  "example_resumed = Chain_new example_file (example_p, ()) 1 10"

definition example_new :: "unit chain" where
  "example_new = Chain_new [] (example_p, ()) 0 2"

definition example_p2 :: vec where
  "example_p2 = [2, 0.1, 300, 3, 0.03, 10, 0.001]"

definition example_settings :: "unit settings" where
  "example_settings = \<lparr>nchains = 1, self_nsteps = 2, covfile = (example_p, ())\<rparr>"

definition example_run :: "unit run" where
  "example_run = \<lparr>chains_file = [], chains = [], pool_maps = [], summaries = []\<rparr>"

section \<open>Properties of the prior\<close>

lemma fl_lt_Fin_iff: "b \<noteq> NaN \<Longrightarrow> \<not> fl_lt (Fin a) b \<longleftrightarrow> fl_le b (Fin a)"
  by (cases b) auto

lemma fl_gt_Fin_iff: "b \<noteq> NaN \<Longrightarrow> \<not> fl_gt (Fin a) b \<longleftrightarrow> fl_le (Fin a) b"
  by (cases b) (auto simp: fl_gt_def)

lemma in_bounds_from_total:
  "n + length p \<le> length lo \<Longrightarrow> n + length p \<le> length hi \<Longrightarrow>
   \<exists>b. in_bounds_from lo hi n p = Inr b"
  by (induction p arbitrary: n) auto

lemma in_bounds_from_iff:
  "n + length p \<le> length lo \<Longrightarrow> n + length p \<le> length hi \<Longrightarrow>
   NaN \<notin> set lo \<Longrightarrow> NaN \<notin> set hi \<Longrightarrow>
   in_bounds_from lo hi n p = Inr True \<longleftrightarrow>
     (\<forall>i < length p. fl_le (lo ! (n + i)) (Fin (p ! i)) \<and> fl_le (Fin (p ! i)) (hi ! (n + i)))"
proof (induction p arbitrary: n)
  case Nil
  then show ?case by simp
next
  case (Cons par ps)
  have lo: "lo ! n \<noteq> NaN" and hi: "hi ! n \<noteq> NaN"
    using Cons.prems by (auto simp: in_set_conv_nth)
  have IH: "in_bounds_from lo hi (Suc n) ps = Inr True \<longleftrightarrow>
     (\<forall>i < length ps. fl_le (lo ! (Suc n + i)) (Fin (ps ! i)) \<and> fl_le (Fin (ps ! i)) (hi ! (Suc n + i)))"
    using Cons.prems by (intro Cons.IH) auto
  show ?case
    using Cons.prems IH fl_lt_Fin_iff [OF lo, of par] fl_gt_Fin_iff [OF hi, of par]
    by (auto simp: All_less_Suc2)
qed

text \<open>
  C9. For a parameter vector \<open>p\<close> of the dimension of the bounds, \<^verbatim>\<open>prior(p)\<close> returns
  exactly 1.0 or exactly 0.0, and it returns 1.0 precisely when every component lies
  between its two bounds, the bounds included (both comparisons of the loop are strict).
\<close>

theorem prior_indicator:
  assumes "length p \<le> length lo" and "length p \<le> length hi"
    and "NaN \<notin> set lo" and "NaN \<notin> set hi"
  shows "(prior (lo, hi) p = Inr 1 \<or> prior (lo, hi) p = Inr 0) \<and>
         (prior (lo, hi) p = Inr 1 \<longleftrightarrow>
            (\<forall>i < length p. fl_le (lo ! i) (Fin (p ! i)) \<and> fl_le (Fin (p ! i)) (hi ! i)))"
proof -
  obtain b where b: "in_bounds_from lo hi 0 p = Inr b"
    using in_bounds_from_total [of 0 p lo hi] assms by auto
  have "b \<longleftrightarrow> (\<forall>i < length p. fl_le (lo ! i) (Fin (p ! i)) \<and> fl_le (Fin (p ! i)) (hi ! i))"
    using in_bounds_from_iff [of 0 p lo hi] assms b by simp
  then show ?thesis
    using b by (auto simp: prior_def)
qed

theorem prior_indicator_witness:
  "length [0, 1, 300, 10, 1, 1, - 20 :: real] \<le> length (fst Extractor_bounds) \<and>
   length [0, 1, 300, 10, 1, 1, - 20 :: real] \<le> length (snd Extractor_bounds) \<and>
   NaN \<notin> set (fst Extractor_bounds) \<and> NaN \<notin> set (snd Extractor_bounds) \<and>
   prior Extractor_bounds [0, 1, 300, 10, 1, 1, - 20] = Inr 1 \<and>
   fl_le (fst Extractor_bounds ! 1) (Fin ([0, 1, 300, 10, 1, 1, - 20] ! 1)) \<and>
   fl_le (Fin ([0, 1, 300, 10, 1, 1, - 20] ! 1)) (snd Extractor_bounds ! 1)"
  using prior_indicator [of "[0, 1, 300, 10, 1, 1, - 20]" "fst Extractor_bounds" "snd Extractor_bounds"]
  by (simp add: Extractor_bounds_def prior_def fl_gt_def)

section \<open>Properties of one step of the walk\<close>

lemma mcmc_step_eq:
  assumes "draw_vector E (proposal_cov (ch s)) (vec1 s) (rng s) = (vec2, g1)"
    and "prior (bounds E) vec2 = Inr prior2"
    and "candidate_cost E prior2 vec2 (chisq_calls s) = (chisq2, calls)"
    and "uniform E g1 = (r, g2)"
  shows "mcmc_step E i s =
     Inr \<lparr>vec1 = (if accept (chisq1 s) chisq2 r then vec2 else vec1 s),
          chisq1 = (if accept (chisq1 s) chisq2 r then chisq2 else chisq1 s),
          rng = g2,
          ch = (let c1 = newrow (ch s)
                      (make_dictline (ch s) i
                         (if accept (chisq1 s) chisq2 r then chisq2 else chisq1 s)
                         (if accept (chisq1 s) chisq2 r then vec2 else vec1 s))
                      (row_key (ch s) i)
                in if i > exploration_time E
                   then c1\<lparr>proposal_cov := update_proposal_cov E (proposal_cov c1)
                        (if accept (chisq1 s) chisq2 r then vec2 else vec1 s)\<rparr>
                   else c1),
          chisq_calls = calls\<rparr>"
  using assms by (simp add: mcmc_step_def Let_def)

lemma accept_Fin: "accept (Fin c1) (Fin c2) r \<longleftrightarrow> exp (- 0.5 * (c2 - c1)) > r"
  by (simp add: accept_def fl_gt_def)

text \<open>
  C1. In a step with finite current cost \<open>c1\<close> and finite candidate cost \<open>c2\<close>, and with
  \<open>u\<close> the uniform draw of the step, the state after the step is the candidate exactly
  when \<open>exp (-0.5 * (c2 - c1)) > u\<close>, and the unchanged current state otherwise; a candidate
  with \<open>c2 \<le> c1\<close> is accepted for every \<open>u\<close> in \<open>[0, 1)\<close>.
\<close>

theorem acceptance_rule:
  assumes "draw_vector E (proposal_cov (ch s)) (vec1 s) (rng s) = (vec2, g1)"
    and "prior (bounds E) vec2 = Inr prior2"
    and "candidate_cost E prior2 vec2 (chisq_calls s) = (Fin c2, calls)"
    and "uniform E g1 = (u, g2)"
    and "chisq1 s = Fin c1"
  shows "\<exists>s'. mcmc_step E i s = Inr s' \<and>
           (vec1 s', chisq1 s') =
             (if exp (- 0.5 * (c2 - c1)) > u then (vec2, Fin c2) else (vec1 s, Fin c1)) \<and>
           (c2 \<le> c1 \<and> 0 \<le> u \<and> u < 1 \<longrightarrow> (vec1 s', chisq1 s') = (vec2, Fin c2))"
proof -
  have "c2 \<le> c1 \<Longrightarrow> u < 1 \<Longrightarrow> exp (- 0.5 * (c2 - c1)) > u"
  proof -
    assume "c2 \<le> c1" and "u < 1"
    then have "1 \<le> exp (- 0.5 * (c2 - c1))" by simp
    with \<open>u < 1\<close> show ?thesis by linarith
  qed
  then show ?thesis
    using assms(5) by (simp add: mcmc_step_eq [OF assms(1-4)] accept_Fin)
qed

lemma accept_nonfinite:
  "0 \<le> r \<Longrightarrow> c2 = NaN \<or> c2 = PInf \<Longrightarrow> \<not> accept (Fin c1) c2 r"
  by (auto simp: accept_def fl_gt_def)

lemma exp_neg_bound: "0 \<le> x \<Longrightarrow> exp (- x) \<le> 1 / (1 + (x::real))"
proof -
  assume x: "0 \<le> x"
  have "1 + x \<le> exp x" by (rule exp_ge_add_one_self)
  then have "1 / exp x \<le> 1 / (1 + x)" using x by (intro divide_left_mono) auto
  then show ?thesis by (simp add: exp_minus inverse_eq_divide)
qed

lemma row_key_inj:
  assumes "nsteps c = nsteps c'" "0 \<le> i" "i < nsteps c" "0 \<le> j" "j < nsteps c'"
    and "row_key c i = row_key c' j"
  shows "i = j \<and> nchain c = nchain c'"
proof -
  let ?N = "nsteps c"
  have e: "i + nchain c * ?N = j + nchain c' * ?N"
    using assms by (simp add: row_key_def)
  then have "(i + nchain c * ?N) mod ?N = (j + nchain c' * ?N) mod ?N" by simp
  then have ij: "i = j" using assms by simp
  with e have "nchain c * ?N = nchain c' * ?N" by simp
  moreover have "?N \<noteq> 0" using assms by auto
  ultimately show ?thesis using ij by simp
qed

text \<open>
  C3. An iteration appends exactly one row to the chain's rows, under the key
  \<open>i + nchain * nsteps\<close>; the row carries the state after the decision, the candidate and
  its cost on acceptance, the unchanged current vector and cost on rejection. Two steps
  \<open>i\<close> and \<open>j\<close> in \<open>[0, nsteps)\<close> of chains with the same \<open>nsteps\<close> have the same key only
  if they are the same step of the same chain index.
\<close>

theorem step_appends_one_row:
  assumes "draw_vector E (proposal_cov (ch s)) (vec1 s) (rng s) = (vec2, g1)"
    and "prior (bounds E) vec2 = Inr prior2"
    and "candidate_cost E prior2 vec2 (chisq_calls s) = (chisq2, calls)"
    and "uniform E g1 = (u, g2)"
  shows "\<exists>s'. mcmc_step E i s = Inr s' \<and>
           (vec1 s', chisq1 s') =
             (if accept (chisq1 s) chisq2 u then (vec2, chisq2) else (vec1 s, chisq1 s)) \<and>
           rows (ch s') =
             rows (ch s) @ [(i + nchain (ch s) * nsteps (ch s),
                             make_dictline (ch s) i (chisq1 s') (vec1 s'))] \<and>
           (nsteps c' = nsteps (ch s) \<and> 0 \<le> i \<and> i < nsteps (ch s) \<and> 0 \<le> j \<and> j < nsteps c' \<and>
            row_key c' j = row_key (ch s) i \<longrightarrow> j = i \<and> nchain c' = nchain (ch s))"
  using row_key_inj [of "ch s" c' i j]
  by (auto simp add: mcmc_step_eq [OF assms] Let_def newrow_def row_key_def)

text \<open>
  C7. When the cost callable returns \<^verbatim>\<open>nan\<close> or \<^verbatim>\<open>+inf\<close> for a feasible candidate while
  the current cost is finite, the candidate is rejected for every uniform draw \<open>u \<ge> 0\<close>:
  the state is unchanged and the row of the step carries the current vector and the
  finite current cost.
\<close>

theorem nonfinite_cost_rejected:
  assumes "draw_vector E (proposal_cov (ch s)) (vec1 s) (rng s) = (vec2, g1)"
    and "prior (bounds E) vec2 = Inr prior2"
    and "prior2 > 1 / 10 ^ 10"
    and "chisq E vec2 = NaN \<or> chisq E vec2 = PInf"
    and "uniform E g1 = (u, g2)"
    and "0 \<le> u"
    and "chisq1 s = Fin c1"
  shows "\<exists>s'. mcmc_step E i s = Inr s' \<and> vec1 s' = vec1 s \<and> chisq1 s' = Fin c1 \<and>
           rows (ch s') =
             rows (ch s) @ [(row_key (ch s) i, make_dictline (ch s) i (Fin c1) (vec1 s))]"
proof -
  have cc: "candidate_cost E prior2 vec2 (chisq_calls s) = (chisq E vec2, chisq_calls s @ [vec2])"
    using assms(3) by (simp add: candidate_cost_def)
  have "\<not> accept (chisq1 s) (chisq E vec2) u"
    using accept_nonfinite [OF assms(6) assms(4)] assms(7) by simp
  then show ?thesis
    using assms(7) by (simp add: mcmc_step_eq [OF assms(1,2) cc assms(5)] Let_def newrow_def)
qed

text \<open>
  C2, amended. When the prior weight of the candidate is at most \<open>1e-10\<close>, the cost
  callable is not invoked for it and it gets the cost \<open>1e20\<close>. With a finite current cost
  \<open>c1 < 1e20\<close> it is accepted only when \<open>u < exp (-0.5 * (1e20 - c1))\<close>, a threshold that is
  at most \<open>1 / (1 + 0.5 * (1e20 - c1))\<close>; for every \<open>u\<close> at or above this bound the step
  keeps the current state.
\<close>

theorem infeasible_candidate:
  assumes "draw_vector E (proposal_cov (ch s)) (vec1 s) (rng s) = (vec2, g1)"
    and "prior (bounds E) vec2 = Inr prior2"
    and "prior2 \<le> 1 / 10 ^ 10"
    and "uniform E g1 = (u, g2)"
    and "chisq1 s = Fin c1"
    and "c1 < 10 ^ 20"
  shows "\<exists>s'. mcmc_step E i s = Inr s' \<and> chisq_calls s' = chisq_calls s \<and>
           (vec1 s', chisq1 s') =
             (if exp (- 0.5 * (10 ^ 20 - c1)) > u then (vec2, Fin (10 ^ 20))
              else (vec1 s, Fin c1)) \<and>
           exp (- 0.5 * (10 ^ 20 - c1)) \<le> 1 / (1 + 0.5 * (10 ^ 20 - c1)) \<and>
           (1 / (1 + 0.5 * (10 ^ 20 - c1)) \<le> u \<longrightarrow> (vec1 s', chisq1 s') = (vec1 s, Fin c1))"
proof -
  have cc: "candidate_cost E prior2 vec2 (chisq_calls s) = (Fin (10 ^ 20), chisq_calls s)"
    using assms(3) by (simp add: candidate_cost_def)
  have b: "exp (- 0.5 * (10 ^ 20 - c1)) \<le> 1 / (1 + 0.5 * (10 ^ 20 - c1))"
    using exp_neg_bound [of "0.5 * (10 ^ 20 - c1)"] assms(6) by simp
  then have "1 / (1 + 0.5 * (10 ^ 20 - c1)) \<le> u \<Longrightarrow> \<not> exp (- 0.5 * (10 ^ 20 - c1)) > u"
    by linarith
  then show ?thesis
    using assms(5) b by (simp add: mcmc_step_eq [OF assms(1,2) cc assms(4)] accept_Fin)
qed


lemma prior_example_p: "prior Extractor_bounds example_p = Inr 1"
  by (simp add: prior_def Extractor_bounds_def example_p_def fl_gt_def)

lemma prior_example_bad: "prior Extractor_bounds example_bad = Inr 0"
  by (simp add: prior_def Extractor_bounds_def example_bad_def fl_gt_def)

theorem acceptance_rule_witness:
  "draw_vector (toy (\<lambda>v. Fin 3) (\<lambda>v. v) (1 / 2)) (proposal_cov (ch (example_walk (Fin 3))))
      (vec1 (example_walk (Fin 3))) (rng (example_walk (Fin 3))) = (example_p, 1) \<and>
   prior (bounds (toy (\<lambda>v. Fin 3) (\<lambda>v. v) (1 / 2))) example_p = Inr 1 \<and>
   candidate_cost (toy (\<lambda>v. Fin 3) (\<lambda>v. v) (1 / 2)) 1 example_p
      (chisq_calls (example_walk (Fin 3))) = (Fin 3, [example_p, example_p]) \<and>
   uniform (toy (\<lambda>v. Fin 3) (\<lambda>v. v) (1 / 2)) 1 = (1 / 2, 2) \<and>
   chisq1 (example_walk (Fin 3)) = Fin 3 \<and>
   (\<exists>s'. mcmc_step (toy (\<lambda>v. Fin 3) (\<lambda>v. v) (1 / 2)) 0 (example_walk (Fin 3)) = Inr s' \<and>
         (vec1 s', chisq1 s') = (example_p, Fin 3))"
proof -
  let ?E = "toy (\<lambda>v. Fin 3) (\<lambda>v. v) (1 / 2)"
  let ?s = "example_walk (Fin 3)"
  have h1: "draw_vector ?E (proposal_cov (ch ?s)) (vec1 ?s) (rng ?s) = (example_p, 1)"
    by (simp add: toy_def example_walk_def)
  have h2: "prior (bounds ?E) example_p = Inr 1"
    by (simp add: toy_def prior_example_p)
  have h3: "candidate_cost ?E 1 example_p (chisq_calls ?s) = (Fin 3, [example_p, example_p])"
    by (simp add: candidate_cost_def toy_def example_walk_def)
  have h4: "uniform ?E 1 = (1 / 2, 2)"
    by (simp add: toy_def)
  have h5: "chisq1 ?s = Fin 3"
    by (simp add: example_walk_def)
  show ?thesis
    using acceptance_rule [OF h1 h2 h3 h4 h5, of 0] h1 h2 h3 h4 h5 by simp
qed

theorem step_appends_one_row_witness:
  "draw_vector (toy (\<lambda>v. Fin 3) (\<lambda>v. v) (1 / 2)) (proposal_cov (ch (example_walk (Fin 3))))
      (vec1 (example_walk (Fin 3))) (rng (example_walk (Fin 3))) = (example_p, 1) \<and>
   prior (bounds (toy (\<lambda>v. Fin 3) (\<lambda>v. v) (1 / 2))) example_p = Inr 1 \<and>
   candidate_cost (toy (\<lambda>v. Fin 3) (\<lambda>v. v) (1 / 2)) 1 example_p
      (chisq_calls (example_walk (Fin 3))) = (Fin 3, [example_p, example_p]) \<and>
   uniform (toy (\<lambda>v. Fin 3) (\<lambda>v. v) (1 / 2)) 1 = (1 / 2, 2) \<and>
   row_key example_chain 3 = row_key (ch (example_walk (Fin 3))) 3 \<and>
   (\<exists>s'. mcmc_step (toy (\<lambda>v. Fin 3) (\<lambda>v. v) (1 / 2)) 3 (example_walk (Fin 3)) = Inr s' \<and>
         rows (ch s') =
           [(13, \<lparr>Chain = 1, Index = 3, Chi2 = chisq1 s', Params = vec1 s'\<rparr>)])"
proof -
  let ?E = "toy (\<lambda>v. Fin 3) (\<lambda>v. v) (1 / 2)"
  let ?s = "example_walk (Fin 3)"
  have h1: "draw_vector ?E (proposal_cov (ch ?s)) (vec1 ?s) (rng ?s) = (example_p, 1)"
    by (simp add: toy_def example_walk_def)
  have h2: "prior (bounds ?E) example_p = Inr 1"
    by (simp add: toy_def prior_example_p)
  have h3: "candidate_cost ?E 1 example_p (chisq_calls ?s) = (Fin 3, [example_p, example_p])"
    by (simp add: candidate_cost_def toy_def example_walk_def)
  have h4: "uniform ?E 1 = (1 / 2, 2)"
    by (simp add: toy_def)
  have h5: "row_key example_chain 3 = row_key (ch ?s) 3"
    by (simp add: example_walk_def)
  have c: "nchain (ch ?s) = 1" "nsteps (ch ?s) = 10" "rows (ch ?s) = []"
    by (simp_all add: example_walk_def example_chain_def)
  show ?thesis
    using step_appends_one_row [OF h1 h2 h3 h4, of 3 example_chain 3] h1 h2 h3 h4 h5
    by (auto simp add: c make_dictline_def)
qed

theorem nonfinite_cost_rejected_witness:
  "draw_vector (toy (\<lambda>v. NaN) (\<lambda>v. v) (1 / 2)) (proposal_cov (ch (example_walk (Fin 3))))
      (vec1 (example_walk (Fin 3))) (rng (example_walk (Fin 3))) = (example_p, 1) \<and>
   prior (bounds (toy (\<lambda>v. NaN) (\<lambda>v. v) (1 / 2))) example_p = Inr 1 \<and>
   (1::real) > 1 / 10 ^ 10 \<and>
   chisq (toy (\<lambda>v. NaN) (\<lambda>v. v) (1 / 2)) example_p = NaN \<and>
   uniform (toy (\<lambda>v. NaN) (\<lambda>v. v) (1 / 2)) 1 = (1 / 2, 2) \<and>
   (0::real) \<le> 1 / 2 \<and>
   chisq1 (example_walk (Fin 3)) = Fin 3 \<and>
   (\<exists>s'. mcmc_step (toy (\<lambda>v. NaN) (\<lambda>v. v) (1 / 2)) 3 (example_walk (Fin 3)) = Inr s' \<and>
         vec1 s' = example_p \<and> chisq1 s' = Fin 3 \<and>
         rows (ch s') = [(13, \<lparr>Chain = 1, Index = 3, Chi2 = Fin 3, Params = example_p\<rparr>)])"
proof -
  let ?E = "toy (\<lambda>v. NaN) (\<lambda>v. v) (1 / 2)"
  let ?s = "example_walk (Fin 3)"
  have h1: "draw_vector ?E (proposal_cov (ch ?s)) (vec1 ?s) (rng ?s) = (example_p, 1)"
    by (simp add: toy_def example_walk_def)
  have h2: "prior (bounds ?E) example_p = Inr 1"
    by (simp add: toy_def prior_example_p)
  have h3: "(1::real) > 1 / 10 ^ 10" by simp
  have h4: "chisq ?E example_p = NaN \<or> chisq ?E example_p = PInf"
    by (simp add: toy_def)
  have h5: "uniform ?E 1 = (1 / 2, 2)"
    by (simp add: toy_def)
  have h6: "(0::real) \<le> 1 / 2" by simp
  have h7: "chisq1 ?s = Fin 3"
    by (simp add: example_walk_def)
  have c: "nchain (ch ?s) = 1" "nsteps (ch ?s) = 10" "rows (ch ?s) = []" "vec1 ?s = example_p"
    by (simp_all add: example_walk_def example_chain_def)
  have e: "chisq ?E example_p = NaN" by (simp add: toy_def)
  show ?thesis
    using nonfinite_cost_rejected [OF h1 h2 h3 h4 h5 h6 h7, of 3] h1 h2 h5 h7 e
    by (simp add: c make_dictline_def row_key_def)
qed

theorem infeasible_candidate_witness:
  "draw_vector ex_infeasible (proposal_cov (ch (example_walk (Fin 3))))
      (vec1 (example_walk (Fin 3))) (rng (example_walk (Fin 3))) = (example_bad, 1) \<and>
   prior (bounds ex_infeasible) example_bad = Inr 0 \<and>
   (0::real) \<le> 1 / 10 ^ 10 \<and>
   uniform ex_infeasible 1 = (1 / 2, 2) \<and>
   chisq1 (example_walk (Fin 3)) = Fin 3 \<and>
   (3::real) < 10 ^ 20 \<and>
   1 / (1 + 0.5 * (10 ^ 20 - 3)) \<le> (1 / 2 :: real) \<and>
   (\<exists>s'. mcmc_step ex_infeasible 0 (example_walk (Fin 3)) = Inr s' \<and>
         chisq_calls s' = [example_p] \<and> (vec1 s', chisq1 s') = (example_p, Fin 3))"
proof -
  let ?s = "example_walk (Fin 3)"
  have h1: "draw_vector ex_infeasible (proposal_cov (ch ?s)) (vec1 ?s) (rng ?s) = (example_bad, 1)"
    by (simp add: ex_infeasible_def toy_def example_walk_def)
  have h2: "prior (bounds ex_infeasible) example_bad = Inr 0"
    by (simp add: ex_infeasible_def toy_def prior_example_bad)
  have h3: "(0::real) \<le> 1 / 10 ^ 10" by simp
  have h4: "uniform ex_infeasible 1 = (1 / 2, 2)"
    by (simp add: ex_infeasible_def toy_def)
  have h5: "chisq1 ?s = Fin 3"
    by (simp add: example_walk_def)
  have h6: "(3::real) < 10 ^ 20" by simp
  have h7: "1 / (1 + 0.5 * (10 ^ 20 - 3)) \<le> (1 / 2 :: real)" by simp
  have c: "chisq_calls ?s = [example_p]" "vec1 ?s = example_p"
    by (simp_all add: example_walk_def)
  show ?thesis
    using infeasible_candidate [OF h1 h2 h3 h4 h5 h6, of 0] h1 h2 h4 h5 h7
    by (auto simp add: c)
qed

text \<open>
  The finite current cost \<open>2e20\<close>: the candidate \<open>example_bad\<close> has prior weight 0, and the
  step accepts it, at \<open>u = 1/2\<close>.
\<close>

theorem infeasible_candidate_accepted:
  "is_finite (Fin (2 * 10 ^ 20)) \<and>
   prior (bounds ex_infeasible) example_bad = Inr 0 \<and>
   map_sum id vec1 (mcmc_step ex_infeasible 0 (example_walk (Fin (2 * 10 ^ 20)))) = Inr example_bad \<and>
   map_sum id chisq1 (mcmc_step ex_infeasible 0 (example_walk (Fin (2 * 10 ^ 20)))) = Inr (Fin (10 ^ 20)) \<and>
   vec1 (example_walk (Fin (2 * 10 ^ 20))) = example_p"
proof -
  let ?s = "example_walk (Fin (2 * 10 ^ 20))"
  have h1: "draw_vector ex_infeasible (proposal_cov (ch ?s)) (vec1 ?s) (rng ?s) = (example_bad, 1)"
    by (simp add: ex_infeasible_def toy_def example_walk_def)
  have h2: "prior (bounds ex_infeasible) example_bad = Inr 0"
    by (simp add: ex_infeasible_def toy_def prior_example_bad)
  have h3: "candidate_cost ex_infeasible 0 example_bad (chisq_calls ?s) = (Fin (10 ^ 20), chisq_calls ?s)"
    by (simp add: candidate_cost_def)
  have h4: "uniform ex_infeasible 1 = (1 / 2, 2)"
    by (simp add: ex_infeasible_def toy_def)
  have "(1::real) \<le> exp (- 0.5 * (10 ^ 20 - 2 * 10 ^ 20))" by simp
  then have "(1 / 2 :: real) < exp (- 0.5 * (10 ^ 20 - 2 * 10 ^ 20))" by linarith
  then have a: "accept (chisq1 ?s) (Fin (10 ^ 20)) (1 / 2)"
    by (simp add: example_walk_def accept_Fin)
  have v: "map_sum id vec1 (mcmc_step ex_infeasible 0 ?s) = Inr example_bad"
    and c: "map_sum id chisq1 (mcmc_step ex_infeasible 0 ?s) = Inr (Fin (10 ^ 20))"
    using a unfolding mcmc_step_eq [OF h1 h2 h3 h4] by simp_all
  have "vec1 ?s = example_p" by (simp add: example_walk_def)
  with v c h2 show ?thesis by simp
qed

section \<open>Properties of the walk of a chain\<close>

lemma prior_total:
  "length p \<le> length (fst b) \<Longrightarrow> length p \<le> length (snd b) \<Longrightarrow> \<exists>w. prior b p = Inr w"
  using in_bounds_from_total [of 0 p "fst b" "snd b"] by (auto simp: prior_def)

lemma mcmc_step_ok:
  assumes "\<forall>cs v g. length (fst (draw_vector E cs v g)) = length v"
    and "length (vec1 s) \<le> length (fst (bounds E))"
    and "length (vec1 s) \<le> length (snd (bounds E))"
  shows "\<exists>s' cost. mcmc_step E i s = Inr s' \<and> length (vec1 s') = length (vec1 s) \<and>
           nchain (ch s') = nchain (ch s) \<and> nsteps (ch s') = nsteps (ch s) \<and>
           rows (ch s') =
             rows (ch s) @ [(row_key (ch s) i,
                \<lparr>Chain = nchain (ch s), Index = i, Chi2 = cost, Params = vec1 s'\<rparr>)]"
proof -
  obtain vec2 g1 where d: "draw_vector E (proposal_cov (ch s)) (vec1 s) (rng s) = (vec2, g1)"
    by (cases "draw_vector E (proposal_cov (ch s)) (vec1 s) (rng s)")
  have l: "length vec2 = length (vec1 s)"
    using assms(1) d by (metis fst_conv)
  obtain prior2 where p: "prior (bounds E) vec2 = Inr prior2"
    using prior_total [of vec2 "bounds E"] assms(2,3) l by auto
  obtain chisq2 calls where c: "candidate_cost E prior2 vec2 (chisq_calls s) = (chisq2, calls)"
    by (cases "candidate_cost E prior2 vec2 (chisq_calls s)")
  obtain u g2 where u: "uniform E g1 = (u, g2)"
    by (cases "uniform E g1")
  show ?thesis
    using l by (simp add: mcmc_step_eq [OF d p c u] Let_def newrow_def make_dictline_def)
qed

lemma walk_loop_ok:
  assumes "\<forall>cs v g. length (fst (draw_vector E cs v g)) = length v"
    and "length (vec1 s) \<le> length (fst (bounds E))"
    and "length (vec1 s) \<le> length (snd (bounds E))"
  shows "\<exists>s' new. walk_loop E ks s = Inr s' \<and> length (vec1 s') = length (vec1 s) \<and>
           nchain (ch s') = nchain (ch s) \<and> nsteps (ch s') = nsteps (ch s) \<and>
           rows (ch s') = rows (ch s) @ new \<and>
           map fst new = map (row_key (ch s)) ks \<and>
           map (\<lambda>kr. Index (snd kr)) new = ks \<and>
           list_all (\<lambda>(k, r). Chain r = nchain (ch s)) new"
  using assms(2,3)
proof (induction ks arbitrary: s)
  case Nil
  then show ?case by simp
next
  case (Cons i ks)
  obtain s1 cost where s1: "mcmc_step E i s = Inr s1" "length (vec1 s1) = length (vec1 s)"
      "nchain (ch s1) = nchain (ch s)" "nsteps (ch s1) = nsteps (ch s)"
      "rows (ch s1) = rows (ch s) @ [(row_key (ch s) i,
                \<lparr>Chain = nchain (ch s), Index = i, Chi2 = cost, Params = vec1 s1\<rparr>)]"
    using mcmc_step_ok [OF assms(1) Cons.prems, of i] by blast
  have k: "row_key (ch s1) = row_key (ch s)"
    using s1(3,4) by (simp add: row_key_def fun_eq_iff)
  obtain s' new where s': "walk_loop E ks s1 = Inr s'" "length (vec1 s') = length (vec1 s1)"
      "nchain (ch s') = nchain (ch s1)" "nsteps (ch s') = nsteps (ch s1)"
      "rows (ch s') = rows (ch s1) @ new"
      "map fst new = map (row_key (ch s1)) ks" "map (\<lambda>kr. Index (snd kr)) new = ks"
      "list_all (\<lambda>(k, r). Chain r = nchain (ch s1)) new"
    using Cons.IH [of s1] Cons.prems s1(2) by auto
  show ?case
    apply (rule exI [of _ s'])
    apply (rule exI [of _ "(row_key (ch s) i,
                \<lparr>Chain = nchain (ch s), Index = i, Chi2 = cost, Params = vec1 s1\<rparr>) # new"])
    using s1 s' k by simp
qed


lemma mcmc_start_resumed:
  "start_key c \<noteq> - 1 \<Longrightarrow> rescale E (start_vec c) = Inr v' \<Longrightarrow>
   mcmc_start E c g =
     Some (Inr \<lparr>vec1 = v', chisq1 = chisq E v', rng = seed E (nchain c),
                ch = c\<lparr>start_index := start_index c + 1, start_vec := v'\<rparr>,
                chisq_calls = [v']\<rparr>)"
  by (simp add: mcmc_start_def)

lemma mcmc_start_new:
  "start_key c = - 1 \<Longrightarrow>
   draw_start E c (1 / 10 ^ 10) (start_vec c) (seed E (nchain c)) = Some (Inr (v, g1)) \<Longrightarrow>
   rescale E v = Inr v' \<Longrightarrow>
   mcmc_start E c g =
     Some (Inr \<lparr>vec1 = v', chisq1 = chisq E v', rng = g1, ch = c, chisq_calls = [v']\<rparr>)"
  by (simp add: mcmc_start_def)

lemma mcmc_start_ch:
  assumes "mcmc_start E c g = Some (Inr s0)"
  shows "rows (ch s0) = rows c \<and> nchain (ch s0) = nchain c \<and> nsteps (ch s0) = nsteps c \<and>
         start_index (ch s0) = (if start_key c = - 1 then start_index c else start_index c + 1)"
  using assms
  by (auto simp: mcmc_start_def Let_def split: if_splits option.splits sum.splits prod.splits)

lemma rescale_Cons:
  "rescale E (a # as) =
     Inr (if 0 < max_sim E (a # as) then a * (max_data E / max_sim E (a # as)) # as else a # as)"
  by (simp add: rescale_def)

lemma rescale_ok: "v \<noteq> [] \<Longrightarrow> \<exists>v'. rescale E v = Inr v' \<and> length v' = length v"
  by (cases v) (simp_all add: rescale_Cons)

text \<open>
  C10. Before the loop, for a resumed chain and for a brand-new one alike, the first
  component of the starting vector is multiplied by \<open>max_data / max_sim\<close> whenever the
  maximum of the simulated model is positive. For a resumed chain the walk therefore
  starts at a vector other than \<^verbatim>\<open>chain.start_vec\<close>, the vector it resumes from, whenever
  that factor is not 1 and the amplitude is not 0.
\<close>

theorem start_rescaled:
  "(start_key c \<noteq> - 1 \<and> start_vec c = a # as \<longrightarrow>
      (\<exists>s0. mcmc_start E c g = Some (Inr s0) \<and>
         vec1 s0 = (if 0 < max_sim E (a # as) then a * (max_data E / max_sim E (a # as)) # as
                    else a # as) \<and>
         (0 < max_sim E (a # as) \<and> a \<noteq> 0 \<and> max_data E \<noteq> max_sim E (a # as) \<longrightarrow>
            vec1 s0 \<noteq> start_vec c))) \<and>
   (start_key c = - 1 \<and>
    draw_start E c (1 / 10 ^ 10) (start_vec c) (seed E (nchain c)) = Some (Inr (b # bs, g1)) \<longrightarrow>
      (\<exists>s0. mcmc_start E c g = Some (Inr s0) \<and>
         vec1 s0 = (if 0 < max_sim E (b # bs) then b * (max_data E / max_sim E (b # bs)) # bs
                    else b # bs)))"
proof (intro conjI impI)
  assume h: "start_key c \<noteq> - 1 \<and> start_vec c = a # as"
  have "rescale E (start_vec c) =
        Inr (if 0 < max_sim E (a # as) then a * (max_data E / max_sim E (a # as)) # as else a # as)"
    using h by (simp add: rescale_Cons)
  from mcmc_start_resumed [OF _ this, of g] h
  show "\<exists>s0. mcmc_start E c g = Some (Inr s0) \<and>
         vec1 s0 = (if 0 < max_sim E (a # as) then a * (max_data E / max_sim E (a # as)) # as
                    else a # as) \<and>
         (0 < max_sim E (a # as) \<and> a \<noteq> 0 \<and> max_data E \<noteq> max_sim E (a # as) \<longrightarrow>
            vec1 s0 \<noteq> start_vec c)"
    by (auto simp: field_simps)
next
  assume h: "start_key c = - 1 \<and>
    draw_start E c (1 / 10 ^ 10) (start_vec c) (seed E (nchain c)) = Some (Inr (b # bs, g1))"
  from mcmc_start_new [OF _ _ rescale_Cons, of c E b bs g1 g] h
  show "\<exists>s0. mcmc_start E c g = Some (Inr s0) \<and>
         vec1 s0 = (if 0 < max_sim E (b # bs) then b * (max_data E / max_sim E (b # bs)) # bs
                    else b # bs)"
    by auto
qed

lemma mcmc_start_indep: "mcmc_start E c g = mcmc_start E c g'"
  by (simp add: mcmc_start_def)

lemma mcmc_indep: "mcmc E c g f = mcmc E c g' f"
  by (simp add: mcmc_def mcmc_start_indep [of E c g g'])

lemma pool_map_indep: "pool_map E cs g f = pool_map E cs g' f"
  by (induction cs arbitrary: f)
    (auto simp: mcmc_indep [of E _ g _ g'] split: option.splits sum.splits prod.splits)

text \<open>
  C8. \<^verbatim>\<open>mcmc\<close> first replaces the generator state by \<open>seed (nchain c)\<close>: whatever state
  the process had, or another chain left behind, the walk of a chain and the result of
  the whole pool are the same. A resumed chain enters its loop with the generator state
  \<open>seed (nchain c)\<close>, and a brand-new chain runs its initialisation loop from it.
\<close>

theorem chain_seeded_from_index:
  "mcmc E c g f = mcmc E c g' f \<and>
   pool_map E cs g f = pool_map E cs g' f \<and>
   (start_key c \<noteq> - 1 \<and> rescale E (start_vec c) = Inr v \<longrightarrow>
      map_option (map_sum id rng) (mcmc_start E c g) = Some (Inr (seed E (nchain c)))) \<and>
   (start_key c = - 1 \<longrightarrow>
      mcmc_start E c g =
        (case draw_start E c (1 / 10 ^ 10) (start_vec c) (seed E (nchain c)) of
           None \<Rightarrow> None
         | Some (Inl e) \<Rightarrow> Some (Inl e)
         | Some (Inr (v, g1)) \<Rightarrow>
             (case rescale E v of
                Inl e \<Rightarrow> Some (Inl e)
              | Inr v' \<Rightarrow> Some (Inr \<lparr>vec1 = v', chisq1 = chisq E v', rng = g1, ch = c,
                                       chisq_calls = [v']\<rparr>))))"
  using mcmc_indep [of E c g f g'] pool_map_indep [of E cs g f g']
  by (auto simp: mcmc_start_resumed mcmc_start_def split: option.splits sum.splits)


lemma Chain_new_resumed:
  assumes "chain_rows n f \<noteq> []"
  shows "Chain_new f cf n N =
     \<lparr>nchain = n, nsteps = N, start_vec = Params (snd (last (chain_rows n f))),
      start_key = fst (last (chain_rows n f)),
      start_index = int (length (chain_rows n f)) - 1,
      proposal_cov = snd cf, rows = []\<rparr>"
  using assms by (cases "chain_rows n f") (simp_all add: Chain_new_def)

lemma walk_from_start:
  assumes "\<forall>cs v g. length (fst (draw_vector E cs v g)) = length v"
    and "mcmc_start E c g = Some (Inr s0)"
    and "length (vec1 s0) \<le> length (fst (bounds E))"
    and "length (vec1 s0) \<le> length (snd (bounds E))"
  shows "\<exists>s new. walk_loop E ks s0 = Inr s \<and> rows (ch s) = rows c @ new \<and>
           map fst new = map (\<lambda>i. i + nchain c * nsteps c) ks \<and>
           map (\<lambda>kr. Index (snd kr)) new = ks \<and>
           list_all (\<lambda>(k, r). Chain r = nchain c) new"
proof -
  have c: "rows (ch s0) = rows c" "nchain (ch s0) = nchain c" "nsteps (ch s0) = nsteps c"
    using mcmc_start_ch [OF assms(2)] by simp_all
  have k: "row_key (ch s0) = (\<lambda>i. i + nchain c * nsteps c)"
    using c by (simp add: row_key_def fun_eq_iff)
  show ?thesis
    using walk_loop_ok [OF assms(1,3,4), of ks] c k by auto
qed

text \<open>
  C4, amended. A chain constructed from a file that holds \<open>k > 0\<close> rows of its index
  starts its walk from the vector of the last written row with \<^verbatim>\<open>rescale\<close> applied to it,
  and from the cost that \<^verbatim>\<open>chisq\<close> gives at that rescaled vector. When proposals keep the
  dimension of the vector and the bounds have that dimension, \<^verbatim>\<open>mcmc\<close> returns, and it
  appends to the file exactly \<open>total_steps - k\<close> new rows, with the local step indices
  \<open>k .. total_steps - 1\<close> and the keys \<open>i + n * total_steps\<close>; with \<open>k \<ge> total_steps\<close> there
  is no iteration and no new row.
\<close>

theorem resume_walk:
  assumes "chain_rows n f \<noteq> []"
    and "fst (last (chain_rows n f)) \<noteq> - 1"
    and "\<forall>cs v g. length (fst (draw_vector E cs v g)) = length v"
    and "Params (snd (last (chain_rows n f))) \<noteq> []"
    and "length (Params (snd (last (chain_rows n f)))) \<le> length (fst (bounds E))"
    and "length (Params (snd (last (chain_rows n f)))) \<le> length (snd (bounds E))"
  shows "\<exists>s0 s new.
           mcmc_start E (Chain_new f cf n N) g = Some (Inr s0) \<and>
           rescale E (Params (snd (last (chain_rows n f)))) = Inr (vec1 s0) \<and>
           chisq1 s0 = chisq E (vec1 s0) \<and>
           mcmc E (Chain_new f cf n N) g f = Some (Inr (s, f @ new)) \<and>
           map (\<lambda>kr. Index (snd kr)) new = [int (length (chain_rows n f)) .. N - 1] \<and>
           map fst new = map (\<lambda>i. i + n * N) [int (length (chain_rows n f)) .. N - 1] \<and>
           length new = nat (N - int (length (chain_rows n f))) \<and>
           (N \<le> int (length (chain_rows n f)) \<longrightarrow> new = [])"
proof -
  let ?c = "Chain_new f cf n N"
  let ?k = "int (length (chain_rows n f))"
  let ?p = "Params (snd (last (chain_rows n f)))"
  have c: "nchain ?c = n" "nsteps ?c = N" "start_vec ?c = ?p" "start_key ?c \<noteq> - 1"
      "start_index ?c = ?k - 1" "rows ?c = []"
    using assms(2) by (simp_all add: Chain_new_resumed [OF assms(1)])
  obtain v' where v': "rescale E ?p = Inr v'" "length v' = length ?p"
    using rescale_ok [OF assms(4)] by blast
  define s0 where "s0 = \<lparr>vec1 = v', chisq1 = chisq E v', rng = seed E (nchain ?c),
                ch = ?c\<lparr>start_index := start_index ?c + 1, start_vec := v'\<rparr>,
                chisq_calls = [v']\<rparr>"
  have st: "mcmc_start E ?c g = Some (Inr s0)"
    unfolding s0_def using c(3,4) v'(1) by (intro mcmc_start_resumed) simp_all
  have ks: "keys (ch s0) = [?k .. N - 1]"
    using c by (simp add: keys_def s0_def)
  have l: "length (vec1 s0) \<le> length (fst (bounds E))" "length (vec1 s0) \<le> length (snd (bounds E))"
    using assms(5,6) v'(2) by (simp_all add: s0_def)
  obtain s new where w: "walk_loop E [?k .. N - 1] s0 = Inr s" "rows (ch s) = rows ?c @ new"
      "map fst new = map (\<lambda>i. i + nchain ?c * nsteps ?c) [?k .. N - 1]"
      "map (\<lambda>kr. Index (snd kr)) new = [?k .. N - 1]"
    using walk_from_start [OF assms(3) st l, of "[?k .. N - 1]"] by blast
  have m: "mcmc E ?c g f = Some (Inr (s, f @ new))"
    using st ks w(1,2) c(6) by (simp add: mcmc_def append2file_def)
  have "length new = length [?k .. N - 1]"
    using w(4) by (metis length_map)
  then have len: "length new = nat (N - ?k)" by simp
  have "vec1 s0 = v'" "chisq1 s0 = chisq E (vec1 s0)" by (simp_all add: s0_def)
  then show ?thesis
    using st v'(1) m w(3,4) len c(1,2) by (intro exI [of _ s0] exI [of _ s] exI [of _ new]) auto
qed



lemma prior_example_p2: "prior Extractor_bounds example_p2 = Inr 1"
  by (simp add: prior_def Extractor_bounds_def example_p2_def fl_gt_def)

lemma example_resumed_eq:
  "example_resumed =
     \<lparr>nchain = 1, nsteps = 10, start_vec = example_p, start_key = 12, start_index = 2,
      proposal_cov = (), rows = []\<rparr>"
  by (simp add: example_resumed_def Chain_new_def chain_rows_def example_file_def)

lemma example_new_eq:
  "example_new =
     \<lparr>nchain = 0, nsteps = 2, start_vec = example_p, start_key = - 1, start_index = 0,
      proposal_cov = (), rows = []\<rparr>"
  by (simp add: example_new_def Chain_new_def chain_rows_def)

lemma rescale_example_p: "rescale ex_resume example_p = Inr example_p2"
  by (simp add: rescale_def ex_resume_def toy_def example_p_def example_p2_def)

lemma ex_resume_fields:
  "bounds ex_resume = Extractor_bounds"
  "draw_vector ex_resume cs v g = (v, Suc g)"
  "uniform ex_resume g = (1 / 2, Suc g)"
  "seed ex_resume n = 0"
  "exploration_time ex_resume = 100"
  "chisq ex_resume (a # as) = Fin a"
  by (simp_all add: ex_resume_def toy_def)

lemma draw_start_example:
  "draw_start ex_resume example_new (1 / 10 ^ 10) example_p 0 = Some (Inr (example_p, 1))"
proof -
  have v: "start_vec example_new = example_p" by (simp add: example_new_eq)
  have r: "draw_start ex_resume example_new 1 example_p (Suc 0) = Some (Inr (example_p, Suc 0))"
    by (subst draw_start.simps) simp
  show ?thesis
    by (subst draw_start.simps) (simp add: r ex_resume_fields v prior_example_p)
qed

lemma mcmc_start_example_resumed:
  "mcmc_start ex_resume example_resumed g =
     Some (Inr \<lparr>vec1 = example_p2, chisq1 = Fin 2, rng = 0,
                ch = example_resumed\<lparr>start_index := 3, start_vec := example_p2\<rparr>,
                chisq_calls = [example_p2]\<rparr>)"
proof -
  have k: "start_key example_resumed \<noteq> - 1" and v: "start_vec example_resumed = example_p"
    and i: "start_index example_resumed = 2"
    by (simp_all add: example_resumed_eq)
  have r: "rescale ex_resume (start_vec example_resumed) = Inr example_p2"
    by (simp add: v rescale_example_p)
  show ?thesis
    unfolding mcmc_start_resumed [OF k r]
    by (simp add: i) (simp add: ex_resume_def toy_def example_p2_def)
qed

lemma mcmc_start_example_new:
  "mcmc_start ex_resume example_new g =
     Some (Inr \<lparr>vec1 = example_p2, chisq1 = Fin 2, rng = 1,
                ch = example_new, chisq_calls = [example_p2]\<rparr>)"
proof -
  have k: "start_key example_new = - 1" and v: "start_vec example_new = example_p"
    by (simp_all add: example_new_eq)
  have s: "seed ex_resume (nchain example_new) = 0"
    by (simp add: ex_resume_def toy_def)
  have d: "draw_start ex_resume example_new (1 / 10 ^ 10) (start_vec example_new)
             (seed ex_resume (nchain example_new)) = Some (Inr (example_p, 1))"
    using draw_start_example by (simp add: v s)
  show ?thesis
    unfolding mcmc_start_new [OF k d rescale_example_p]
    by (simp add: ex_resume_def toy_def example_p2_def)
qed

theorem start_rescaled_witness:
  "start_key example_resumed \<noteq> - 1 \<and> start_vec example_resumed = 1 # tl example_p \<and>
   0 < max_sim ex_resume (1 # tl example_p) \<and>
   max_data ex_resume \<noteq> max_sim ex_resume (1 # tl example_p) \<and>
   (\<exists>s0. mcmc_start ex_resume example_resumed 0 = Some (Inr s0) \<and>
      vec1 s0 = example_p2 \<and> vec1 s0 \<noteq> start_vec example_resumed) \<and>
   start_key example_new = - 1 \<and>
   draw_start ex_resume example_new (1 / 10 ^ 10) (start_vec example_new)
     (seed ex_resume (nchain example_new)) = Some (Inr (1 # tl example_p, 1)) \<and>
   (\<exists>s0. mcmc_start ex_resume example_new 0 = Some (Inr s0) \<and> vec1 s0 = example_p2)"
proof -
  have p: "1 # tl example_p = example_p" by (simp add: example_p_def)
  have h1: "start_key example_resumed \<noteq> - 1 \<and> start_vec example_resumed = 1 # tl example_p"
    by (simp add: example_resumed_eq p)
  have h2: "0 < max_sim ex_resume (1 # tl example_p) \<and> (1::real) \<noteq> 0 \<and>
            max_data ex_resume \<noteq> max_sim ex_resume (1 # tl example_p)"
    by (simp add: ex_resume_def toy_def)
  have h3: "start_key example_new = - 1 \<and>
            draw_start ex_resume example_new (1 / 10 ^ 10) (start_vec example_new)
              (seed ex_resume (nchain example_new)) = Some (Inr (1 # tl example_p, 1))"
    using draw_start_example by (simp add: example_new_eq p ex_resume_def toy_def)
  have e: "1 * (max_data ex_resume / max_sim ex_resume (1 # tl example_p)) # tl example_p = example_p2"
    by (simp add: ex_resume_def toy_def example_p_def example_p2_def)
  show ?thesis
    using start_rescaled [where c = example_resumed and a = 1 and as = "tl example_p"
        and E = ex_resume and g = 0]
      start_rescaled [where c = example_new and b = 1 and bs = "tl example_p"
        and E = ex_resume and g = 0 and ?g1.0 = 1] h1 h2 h3 e
    by auto
qed

theorem chain_seeded_from_index_witness:
  "start_key example_resumed \<noteq> - 1 \<and>
   rescale ex_resume (start_vec example_resumed) = Inr example_p2 \<and>
   map_option (map_sum id rng) (mcmc_start ex_resume example_resumed 5) = Some (Inr 0) \<and>
   seed ex_resume (nchain example_resumed) = 0 \<and>
   start_key example_new = - 1 \<and>
   mcmc_start ex_resume example_new 5 =
     Some (Inr \<lparr>vec1 = example_p2, chisq1 = Fin 2, rng = 1, ch = example_new,
                chisq_calls = [example_p2]\<rparr>) \<and>
   mcmc ex_resume example_resumed 5 example_file = mcmc ex_resume example_resumed 7 example_file"
proof -
  have h1: "start_key example_resumed \<noteq> - 1 \<and>
            rescale ex_resume (start_vec example_resumed) = Inr example_p2"
    by (simp add: example_resumed_eq rescale_example_p)
  have s: "seed ex_resume (nchain example_resumed) = 0"
    by (simp add: ex_resume_def toy_def)
  have h2: "start_key example_new = - 1" by (simp add: example_new_eq)
  show ?thesis
    using chain_seeded_from_index [where E = ex_resume and c = example_resumed and g = 5
        and f = example_file and g' = 7 and v = example_p2]
      chain_seeded_from_index [where E = ex_resume and c = example_new and g = 5]
      h1 s h2 mcmc_start_example_new [of 5]
    by simp
qed

lemma ex_resume_step:
  "i \<le> 100 \<Longrightarrow>
   mcmc_step ex_resume i
     \<lparr>vec1 = example_p2, chisq1 = Fin 2, rng = g, ch = c, chisq_calls = cl\<rparr> =
   Inr \<lparr>vec1 = example_p2, chisq1 = Fin 2, rng = Suc (Suc g),
        ch = newrow c (make_dictline c i (Fin 2) example_p2) (row_key c i),
        chisq_calls = cl @ [example_p2]\<rparr>"
proof -
  let ?s = "\<lparr>vec1 = example_p2, chisq1 = Fin 2, rng = g, ch = c, chisq_calls = cl\<rparr>"
  assume i: "i \<le> 100"
  have h1: "draw_vector ex_resume (proposal_cov (ch ?s)) (vec1 ?s) (rng ?s) = (example_p2, Suc g)"
    by (simp add: ex_resume_fields)
  have h2: "prior (bounds ex_resume) example_p2 = Inr 1"
    by (simp add: ex_resume_fields prior_example_p2)
  have h3: "candidate_cost ex_resume 1 example_p2 (chisq_calls ?s) = (Fin 2, cl @ [example_p2])"
    by (simp add: candidate_cost_def ex_resume_def toy_def example_p2_def)
  have h4: "uniform ex_resume (Suc g) = (1 / 2, Suc (Suc g))"
    by (simp add: ex_resume_fields)
  have a: "accept (Fin 2) (Fin 2) (1 / 2)"
    by (simp add: accept_Fin)
  show ?thesis
    unfolding mcmc_step_eq [OF h1 h2 h3 h4] using i a
    by (simp add: ex_resume_fields)
qed

text \<open>
  The chain of index 1 resumed from \<open>example_file\<close>: the last written row holds the
  vector \<open>example_p\<close> and the cost 1, and the walk starts from \<open>example_p2\<close> and the cost 2.
\<close>

theorem resume_not_from_last_row:
  "length (chain_rows 1 example_file) = 3 \<and>
   Params (snd (last (chain_rows 1 example_file))) = example_p \<and>
   Chi2 (snd (last (chain_rows 1 example_file))) = Fin 1 \<and>
   map_option (map_sum id vec1)
     (mcmc_start ex_resume (Chain_new example_file (example_p, ()) 1 10) 0) =
     Some (Inr example_p2) \<and>
   map_option (map_sum id chisq1)
     (mcmc_start ex_resume (Chain_new example_file (example_p, ()) 1 10) 0) =
     Some (Inr (Fin 2)) \<and>
   example_p \<noteq> example_p2"
  using mcmc_start_example_resumed [of 0]
  by (simp add: example_resumed_def [symmetric])
     (simp add: chain_rows_def example_file_def example_p_def example_p2_def)

theorem resume_walk_witness:
  "chain_rows 1 example_file \<noteq> [] \<and>
   fst (last (chain_rows 1 example_file)) \<noteq> - 1 \<and>
   (\<forall>cs v g. length (fst (draw_vector ex_resume cs v g)) = length v) \<and>
   Params (snd (last (chain_rows 1 example_file))) \<noteq> [] \<and>
   length (Params (snd (last (chain_rows 1 example_file)))) \<le> length (fst (bounds ex_resume)) \<and>
   length (Params (snd (last (chain_rows 1 example_file)))) \<le> length (snd (bounds ex_resume)) \<and>
   (\<exists>s new. mcmc ex_resume (Chain_new example_file (example_p, ()) 1 10) 0 example_file =
        Some (Inr (s, example_file @ new)) \<and>
      map (\<lambda>kr. Index (snd kr)) new = [3, 4, 5, 6, 7, 8, 9] \<and>
      map fst new = [13, 14, 15, 16, 17, 18, 19] \<and> length new = 7)"
proof -
  have c: "chain_rows 1 example_file = example_file"
    by (simp add: chain_rows_def example_file_def)
  have l: "last example_file = (12, \<lparr>Chain = 1, Index = 2, Chi2 = Fin 1, Params = example_p\<rparr>)"
      "length example_file = 3"
    by (simp_all add: example_file_def)
  have h1: "chain_rows 1 example_file \<noteq> []" unfolding c by (simp add: example_file_def)
  have h2: "fst (last (chain_rows 1 example_file)) \<noteq> - 1" by (simp add: c l)
  have h3: "\<forall>cs v g. length (fst (draw_vector ex_resume cs v g)) = length v"
    by (simp add: ex_resume_fields)
  have h4: "Params (snd (last (chain_rows 1 example_file))) \<noteq> []"
    by (simp add: c l example_p_def)
  have h5: "length (Params (snd (last (chain_rows 1 example_file)))) \<le> length (fst (bounds ex_resume))"
    and h6: "length (Params (snd (last (chain_rows 1 example_file)))) \<le> length (snd (bounds ex_resume))"
    by (simp_all add: c l example_p_def ex_resume_fields Extractor_bounds_def)
  have u: "[3 .. 9 :: int] = [3, 4, 5, 6, 7, 8, 9]" by (simp add: upto_rec1)
  show ?thesis
    using resume_walk [OF h1 h2 h3 h4 h5 h6, of "(example_p, ())" 10 0] h1 h2 h3 h4 h5 h6
    by (auto simp add: c l u)
qed



section \<open>Properties of the run of all chains\<close>

lemma check_completness_iff:
  "check_completness f N ts \<longleftrightarrow> (\<forall>n\<in>{0..<N}. int (length (chain_rows n f)) = ts)"
  by (auto simp: check_completness_def list_all_iff)

text \<open>
  C5. When every chain of the configuration already has \<open>total_steps\<close> rows in the file,
  as after a first invocation that has run to its end, \<^verbatim>\<open>run_mcmc\<close> returns with the list
  of chains, the dispatches of the pool and the file unchanged: no chain is constructed,
  no pool is dispatched, no row is written. Only one more summary is built, from the
  rows of the file.
\<close>

theorem second_run_no_sampling:
  assumes "\<forall>n\<in>{0..<nchains cfg}. int (length (chain_rows n (chains_file R))) = self_nsteps cfg"
  shows "\<exists>R'. run_mcmc E cfg g R = Some (Inr R') \<and> chains R' = chains R \<and>
           pool_maps R' = pool_maps R \<and> chains_file R' = chains_file R \<and>
           summaries R' = summaries R @ [chains_file R]"
  using assms by (simp add: run_mcmc_def check_completness_iff)

lemma keys_example_new: "keys example_new = [0, 1]"
  by (simp add: keys_def example_new_eq upto_rec1)

lemma mcmc_example_new:
  "mcmc ex_resume example_new g f =
     Some (Inr (\<lparr>vec1 = example_p2, chisq1 = Fin 2, rng = 5,
                 ch = example_new\<lparr>rows :=
                        [(0, \<lparr>Chain = 0, Index = 0, Chi2 = Fin 2, Params = example_p2\<rparr>),
                         (1, \<lparr>Chain = 0, Index = 1, Chi2 = Fin 2, Params = example_p2\<rparr>)]\<rparr>,
                 chisq_calls = [example_p2, example_p2, example_p2]\<rparr>,
                f @ [(0, \<lparr>Chain = 0, Index = 0, Chi2 = Fin 2, Params = example_p2\<rparr>),
                     (1, \<lparr>Chain = 0, Index = 1, Chi2 = Fin 2, Params = example_p2\<rparr>)]))"
  unfolding mcmc_def mcmc_start_example_new
  by (simp add: keys_example_new ex_resume_step)
     (simp add: newrow_def make_dictline_def row_key_def example_new_eq append2file_def)

lemma first_run_example:
  "run_mcmc ex_resume example_settings 0 example_run =
     Some (Inr \<lparr>chains_file =
                  [(0, \<lparr>Chain = 0, Index = 0, Chi2 = Fin 2, Params = example_p2\<rparr>),
                   (1, \<lparr>Chain = 0, Index = 1, Chi2 = Fin 2, Params = example_p2\<rparr>)],
                chains = [example_new], pool_maps = [[0]],
                summaries =
                  [[(0, \<lparr>Chain = 0, Index = 0, Chi2 = Fin 2, Params = example_p2\<rparr>),
                    (1, \<lparr>Chain = 0, Index = 1, Chi2 = Fin 2, Params = example_p2\<rparr>)]]\<rparr>)"
proof -
  have c: "\<not> check_completness (chains_file example_run) (nchains example_settings)
             (self_nsteps example_settings)"
    by (simp add: check_completness_def example_run_def example_settings_def chain_rows_def)
  have n: "map (\<lambda>i. Chain_new (chains_file example_run) (covfile example_settings) i
                  (self_nsteps example_settings)) [0 .. nchains example_settings - 1] =
           [example_new]"
    by (simp add: example_run_def example_settings_def example_new_def)
  have r: "chains example_run = []" "chains_file example_run = []" "pool_maps example_run = []"
      "summaries example_run = []"
    by (simp_all add: example_run_def)
  have i: "nchain example_new = 0" by (simp add: example_new_eq)
  show ?thesis
    unfolding run_mcmc_def Let_def n using c by (simp add: r mcmc_example_new i)
qed

theorem second_run_no_sampling_witness:
  "\<exists>R1. run_mcmc ex_resume example_settings 0 example_run = Some (Inr R1) \<and>
      int (length (chain_rows 0 (chains_file R1))) = self_nsteps example_settings \<and>
      nchains example_settings = 1 \<and>
      (\<exists>R2. run_mcmc ex_resume example_settings 0 R1 = Some (Inr R2) \<and>
         chains R2 = chains R1 \<and> pool_maps R2 = pool_maps R1 \<and>
         chains_file R2 = chains_file R1 \<and> pool_maps R2 = [[0]] \<and>
         length (summaries R2) = 2)"
proof -
  let ?f = "[(0, \<lparr>Chain = 0, Index = 0, Chi2 = Fin 2, Params = example_p2\<rparr>),
             (1, \<lparr>Chain = 0, Index = 1, Chi2 = Fin 2, Params = example_p2\<rparr>)]"
  let ?R1 = "\<lparr>chains_file = ?f, chains = [example_new], pool_maps = [[0]], summaries = [?f]\<rparr>"
  have l: "int (length (chain_rows 0 (chains_file ?R1))) = self_nsteps example_settings"
    by (simp add: chain_rows_def example_settings_def)
  have n: "nchains example_settings = 1" by (simp add: example_settings_def)
  have h: "\<forall>n\<in>{0..<nchains example_settings}.
             int (length (chain_rows n (chains_file ?R1))) = self_nsteps example_settings"
  proof -
    have "{0..<1::int} = {0}" by auto
    then show ?thesis using l by (simp add: n)
  qed
  show ?thesis
    using second_run_no_sampling [OF h, of ex_resume 0] first_run_example l n
    by (intro exI [of _ ?R1]) auto
qed

section \<open>Properties of an interrupted run\<close>



lemma worker_steps_returned:
  "returned w \<Longrightarrow> todo w = [] \<Longrightarrow> worker_steps E n w = Inr w"
  by (induction n) (simp_all add: worker_step_def)

lemma worker_steps_eq:
  "\<not> returned w \<Longrightarrow>
   worker_steps E n w =
     (case walk_loop E (take n (todo w)) (walk_state w) of
        Inl e \<Rightarrow> Inl e
      | Inr s \<Rightarrow>
          Inr (if n \<le> length (todo w) then w\<lparr>walk_state := s, todo := drop n (todo w)\<rparr>
               else w\<lparr>walk_state := s, todo := [],
                      wfile := append2file (ch s) (wfile w), returned := True\<rparr>))"
proof (induction n arbitrary: w)
  case 0
  then show ?case by simp
next
  case (Suc n)
  show ?case
  proof (cases "todo w")
    case Nil
    then show ?thesis
      using Suc.prems by (simp add: worker_step_def worker_steps_returned)
  next
    case (Cons i ks)
    show ?thesis
    proof (cases "mcmc_step E i (walk_state w)")
      case (Inl e)
      then show ?thesis using Cons by (simp add: worker_step_def)
    next
      case (Inr s)
      have "\<not> returned (w\<lparr>walk_state := s, todo := ks\<rparr>)" using Suc.prems by simp
      from Suc.IH [OF this] show ?thesis
        using Cons Inr by (auto simp: worker_step_def split: sum.splits)
    qed
  qed
qed


lemma worker_runs_mcmc:
  "mcmc E c g f =
     (case mcmc_start E c g of
        None \<Rightarrow> None
      | Some (Inl e) \<Rightarrow> Some (Inl e)
      | Some (Inr s0) \<Rightarrow>
          Some (map_sum id (\<lambda>w. (walk_state w, wfile w))
                  (worker_steps E (Suc (length (keys (ch s0))))
                     \<lparr>walk_state = s0, todo = keys (ch s0), wfile = f, returned = False\<rparr>)))"
  by (auto simp: mcmc_def worker_steps_eq simp del: worker_steps.simps
      split: option.splits sum.splits)




















end
